theory Spec2Isabelle
  imports Main "HOL-Library.AList" "HOL-Library.Signed_Division"
begin

section \<open>The in-memory expiring store of raiqub/data\<close>

text \<open>
  A shallow embedding of \<^verbatim>\<open>memstore/store.go\<close> (the time-gated store) together with
  the \<^verbatim>\<open>MemData\<close> entry type it stores.

  \<^item> A \<^verbatim>\<open>time.Time\<close> is an integer count of nanoseconds since the zero time, a
    \<^verbatim>\<open>time.Duration\<close> an integer count of nanoseconds; \<^verbatim>\<open>t.Add(d)\<close> is \<open>t + d\<close> and
    \<^verbatim>\<open>t.After(u)\<close> is \<open>t > u\<close>. Both are unbounded integers: the store adds a duration
    to a time and divides a duration by 5, and neither leaves the range of the Go types
    for times and lifetimes a program meets. \<^verbatim>\<open>s.lifetime / 5\<close> truncates towards zero
    (\<open>sdiv\<close>).
  \<^item> Every function that calls \<^verbatim>\<open>time.Now()\<close> takes the clock reading \<open>now\<close> as its
    first argument; all readings made during one call see that same instant.
  \<^item> \<^verbatim>\<open>map[string]Data\<close> is an association list looked up with \<open>map_of\<close>; the entries
    are \<^verbatim>\<open>*MemData\<close> pointers owned by the map alone, so a mutation through the pointer
    is an update of the map at that key.
  \<^item> The \<^verbatim>\<open>sync.RWMutex\<close> is not read by any operation. The calls made on it, and the
    accesses to the map, are logged in order in the field \<open>trace\<close>, which is replayed by
    \<open>replay\<close> to decide which lock was held at every access. A lookup, a step of a
    range and \<^verbatim>\<open>len\<close> are reads of the map; an assignment to a key, a \<^verbatim>\<open>delete\<close> and
    the replacement of the map are writes. The renewal of an entry through its pointer
    changes no key of the map and is not logged.
  \<^item> One goroutine runs one operation at a time.
\<close>

subsection \<open>Values, destinations and errors\<close>

type_synonym time = int
type_synonym duration = int

datatype gotype = TInt | TString | TBool | TNamed string | TInterface | TPtr gotype

text \<open>A non-nil \<^verbatim>\<open>interface{}\<close> value: a dynamic type with its payload.
  \<open>OtherV n p\<close> is a value of the named type \<open>n\<close> with payload \<open>p\<close>.\<close>

datatype "value" = IntV int | StringV string | BoolV bool | OtherV string nat

text \<open>An \<^verbatim>\<open>interface{}\<close>: \<open>None\<close> is the nil interface.\<close>

type_synonym iface = "value option"

fun type_of :: "value \<Rightarrow> gotype" where
  "type_of (IntV _) = TInt"
| "type_of (StringV _) = TString"
| "type_of (BoolV _) = TBool"
| "type_of (OtherV n _) = TNamed n"

text \<open>The \<^verbatim>\<open>ref interface{}\<close> argument of \<^verbatim>\<open>Get\<close>: the nil interface, a value that is
  not a pointer, a nil pointer of type \<^verbatim>\<open>*T\<close>, or a pointer to a variable of static type
  \<open>T\<close> with its current content.\<close>

datatype ref = NilRef | NonPtr "value" | NilPtr gotype | Ptr gotype iface

fun ref_type :: "ref \<Rightarrow> gotype option" where
  "ref_type NilRef = None"
| "ref_type (NonPtr v) = Some (type_of v)"
| "ref_type (NilPtr T) = Some (TPtr T)"
| "ref_type (Ptr T c) = Some (TPtr T)"

text \<open>\<open>SetPanic\<close> stands for the panic of \<^verbatim>\<open>reflect.Value.Set\<close> on a value that is not
  assignable to the destination; it is not a returned error.\<close>

datatype error =
    DuplicatedKeyError string
  | InvalidKeyError string
  | NotSupportedError string
  | IndereferenceError "gotype option"
  | SetPanic

datatype LockStatus = Unlocked | ReadLocked | WriteLocked

text \<open>Assignability as \<^verbatim>\<open>reflect.Value.Set\<close> checks it, for identical types and for a
  destination of type \<^verbatim>\<open>interface{}\<close>.\<close>

definition assignable :: "gotype \<Rightarrow> gotype \<Rightarrow> bool" where
  "assignable src dstT \<longleftrightarrow> dstT = TInterface \<or> src = dstT"

fun setValue :: "iface \<Rightarrow> ref \<Rightarrow> error option \<times> ref" where
  "setValue None dst = (None, dst)"
| "setValue (Some v) (Ptr T c) =
     (if assignable (type_of v) T then (None, Ptr T (Some v)) else (Some SetPanic, Ptr T c))"
| "setValue (Some v) dst = (Some (IndereferenceError (ref_type dst)), dst)"

subsection \<open>MemData\<close>

record MemData =
  expireAt :: time
  lifetime :: duration
  val :: iface

definition NewMemData :: "time \<Rightarrow> duration \<Rightarrow> iface \<Rightarrow> MemData" where
  "NewMemData now d v = \<lparr>expireAt = now + d, lifetime = d, val = v\<rparr>"

definition IsExpired :: "time \<Rightarrow> MemData \<Rightarrow> bool" where
  "IsExpired now i \<longleftrightarrow> now > expireAt i"

definition Hit :: "time \<Rightarrow> MemData \<Rightarrow> MemData" where
  "Hit now i = i\<lparr>expireAt := now + lifetime i\<rparr>"

definition Value :: "MemData \<Rightarrow> iface" where
  "Value i = val i"

definition Data_SetLifetime :: "duration \<Rightarrow> MemData \<Rightarrow> MemData" where
  "Data_SetLifetime d i = i\<lparr>lifetime := d\<rparr>"

definition SetValue :: "iface \<Rightarrow> MemData \<Rightarrow> MemData" where
  "SetValue v i = i\<lparr>val := v\<rparr>"

subsection \<open>The store and its lock trace\<close>

datatype event = EvRLock | EvRUnlock | EvLock | EvUnlock | EvReadMap | EvWriteMap

text \<open>The field \<open>slifetime\<close> is the \<^verbatim>\<open>lifetime\<close> field of \<^verbatim>\<open>Store\<close> (the name
  \<open>lifetime\<close> is taken by \<^verbatim>\<open>MemData\<close>).\<close>

record Store =
  "values" :: "(string \<times> MemData) list"
  slifetime :: duration
  isTransient :: bool
  lastgc :: time
  trace :: "event list"

definition New :: "duration \<Rightarrow> bool \<Rightarrow> Store" where
  "New d t = \<lparr>values = [], slifetime = d, isTransient = t, lastgc = 0, trace = []\<rparr>"

definition emit :: "event \<Rightarrow> Store \<Rightarrow> Store" where
  "emit ev s = s\<lparr>trace := trace s @ [ev]\<rparr>"

abbreviation "RLock \<equiv> emit EvRLock"
abbreviation "RUnlock \<equiv> emit EvRUnlock"
abbreviation "Lock \<equiv> emit EvLock"
abbreviation "Unlock \<equiv> emit EvUnlock"

text \<open>The lock discipline of one caller on one \<^verbatim>\<open>sync.RWMutex\<close>: \<open>step l ev\<close> is the lock
  held after \<open>ev\<close> when \<open>l\<close> was held before, or \<open>None\<close> when \<open>ev\<close> is not allowed under
  \<open>l\<close> (a map read with no lock, a map write without the write lock, an unlock of a lock
  that is not held, a lock taken while one is held).\<close>

fun step :: "LockStatus \<Rightarrow> event \<Rightarrow> LockStatus option" where
  "step Unlocked EvRLock = Some ReadLocked"
| "step Unlocked EvLock = Some WriteLocked"
| "step ReadLocked EvRUnlock = Some Unlocked"
| "step WriteLocked EvUnlock = Some Unlocked"
| "step ReadLocked EvReadMap = Some ReadLocked"
| "step WriteLocked EvReadMap = Some WriteLocked"
| "step WriteLocked EvWriteMap = Some WriteLocked"
| "step _ _ = None"

fun replay :: "LockStatus \<Rightarrow> event list \<Rightarrow> LockStatus option" where
  "replay l [] = Some l"
| "replay l (ev # evs) = (case step l ev of None \<Rightarrow> None | Some l' \<Rightarrow> replay l' evs)"

subsection \<open>The sweep\<close>

text \<open>The body of \<^verbatim>\<open>for i := range s.values\<close> in \<^verbatim>\<open>gc\<close>, over the keys the range
  produces. A key deleted before it is reached is not produced by a Go range; the loop
  deletes only the key it is at.\<close>

fun gc_loop :: "time \<Rightarrow> string list \<Rightarrow> bool \<Rightarrow> Store \<Rightarrow> bool \<times> Store" where
  "gc_loop now [] writeLocked s = (writeLocked, s)"
| "gc_loop now (i # ks) writeLocked s =
     (case map_of (values s) i of
        None \<Rightarrow> gc_loop now ks writeLocked s
      | Some e \<Rightarrow>
          let s1 = emit EvReadMap s in
          if IsExpired now e then
            let s2 = (if \<not> writeLocked then Lock (RUnlock s1) else s1);
                s3 = emit EvWriteMap (s2\<lparr>values := AList.delete i (values s2)\<rparr>)
            in gc_loop now ks True s3
          else gc_loop now ks writeLocked s1)"

definition gc :: "time \<Rightarrow> Store \<Rightarrow> LockStatus \<times> Store" where
  "gc now s =
     (let minInterval = slifetime s sdiv 5 in
      if lastgc s + minInterval > now then (Unlocked, s)
      else
        let s1 = RLock (s\<lparr>lastgc := now\<rparr>);
            (writeLocked, s2) = gc_loop now (map fst (values s1)) False s1
        in if writeLocked then (WriteLocked, s2) else (ReadLocked, s2))"

subsection \<open>The operations\<close>

definition unsafeGet :: "Store \<Rightarrow> string \<Rightarrow> error + MemData" where
  "unsafeGet s key =
     (case map_of (values s) key of
        None \<Rightarrow> Inl (InvalidKeyError key)
      | Some v \<Rightarrow> Inr v)"

definition Add :: "time \<Rightarrow> string \<Rightarrow> iface \<Rightarrow> Store \<Rightarrow> error option \<times> Store" where
  "Add now key v s =
     (let (lck, s1) = gc now s;
          s2 = (case lck of
                  ReadLocked \<Rightarrow> Lock (RUnlock s1)
                | Unlocked \<Rightarrow> Lock s1
                | WriteLocked \<Rightarrow> s1);
          data = NewMemData now (slifetime s2) v;
          s3 = emit EvReadMap s2
      in if map_of (values s3) key \<noteq> None
         then (Some (DuplicatedKeyError key), Unlock s3)
         else (None,
               Unlock (emit EvWriteMap (s3\<lparr>values := AList.update key data (values s3)\<rparr>))))"

definition Count :: "time \<Rightarrow> Store \<Rightarrow> (nat \<times> error option) \<times> Store" where
  "Count now s =
     (let (lck, s1) = gc now s;
          s2 = (case lck of
                  WriteLocked \<Rightarrow> Unlock s1
                | ReadLocked \<Rightarrow> RUnlock s1
                | Unlocked \<Rightarrow> s1);
          s3 = emit EvReadMap s2
      in ((length (values s3), None), s3))"

definition Delete :: "time \<Rightarrow> string \<Rightarrow> Store \<Rightarrow> error option \<times> Store" where
  "Delete now key s =
     (let (lckStatus, s1) = gc now s;
          s2 = emit EvReadMap s1
      in case unsafeGet s2 key of
           Inl err \<Rightarrow>
             (Some err,
              (case lckStatus of
                 WriteLocked \<Rightarrow> Unlock s2
               | ReadLocked \<Rightarrow> RUnlock s2
               | Unlocked \<Rightarrow> s2))
         | Inr _ \<Rightarrow>
             let s3 = (case lckStatus of
                         ReadLocked \<Rightarrow> Lock (RUnlock s2)
                       | Unlocked \<Rightarrow> Lock s2
                       | WriteLocked \<Rightarrow> s2)
             in (None,
                 Unlock (emit EvWriteMap (s3\<lparr>values := AList.delete key (values s3)\<rparr>))))"

definition Flush :: "Store \<Rightarrow> error option \<times> Store" where
  "Flush s = (None, Unlock (emit EvWriteMap ((Lock s)\<lparr>values := []\<rparr>)))"

definition Get :: "time \<Rightarrow> string \<Rightarrow> ref \<Rightarrow> Store \<Rightarrow> error option \<times> Store \<times> ref" where
  "Get now key dst s =
     (let (lck, s1) = gc now s;
          s2 = (case lck of
                  WriteLocked \<Rightarrow> RLock (Unlock s1)
                | Unlocked \<Rightarrow> RLock s1
                | ReadLocked \<Rightarrow> s1);
          s3 = emit EvReadMap s2
      in case unsafeGet s3 key of
           Inl err \<Rightarrow> (Some err, RUnlock s3, dst)
         | Inr v \<Rightarrow>
             let v' = (if \<not> isTransient s3 then Hit now (Data_SetLifetime (slifetime s3) v)
                       else v);
                 s4 = (if \<not> isTransient s3
                       then s3\<lparr>values := AList.update key v' (values s3)\<rparr> else s3);
                 (err, dst') = setValue (Value v') dst
             in (err, RUnlock s4, dst'))"

definition GC :: "time \<Rightarrow> Store \<Rightarrow> Store" where
  "GC now s =
     (let (lck, s1) = gc now s
      in case lck of
           ReadLocked \<Rightarrow> RUnlock s1
         | WriteLocked \<Rightarrow> Unlock s1
         | Unlocked \<Rightarrow> s1)"

definition Set :: "time \<Rightarrow> string \<Rightarrow> iface \<Rightarrow> Store \<Rightarrow> error option \<times> Store" where
  "Set now key v s =
     (let (lck, s1) = gc now s;
          s2 = (case lck of
                  WriteLocked \<Rightarrow> RLock (Unlock s1)
                | Unlocked \<Rightarrow> RLock s1
                | ReadLocked \<Rightarrow> s1);
          s3 = emit EvReadMap s2
      in case unsafeGet s3 key of
           Inl err \<Rightarrow> (Some err, RUnlock s3)
         | Inr e \<Rightarrow>
             let e1 = SetValue v e;
                 e2 = (if \<not> isTransient s3 then Hit now (Data_SetLifetime (slifetime s3) e1)
                       else e1)
             in (None, RUnlock (s3\<lparr>values := AList.update key e2 (values s3)\<rparr>)))"

text \<open>\<^verbatim>\<open>strconv.Itoa\<close>, used for the name of an unknown scope.\<close>

definition digit :: "nat \<Rightarrow> char" where
  "digit n = char_of (48 + n)"

function nat_digits :: "nat \<Rightarrow> string" where
  "nat_digits n = (if n < 10 then [digit n] else nat_digits (n div 10) @ [digit (n mod 10)])"
  by pat_completeness auto
termination
  by (relation "measure id") auto

definition Itoa :: "int \<Rightarrow> string" where
  "Itoa i = (if i < 0 then CHR ''-'' # nat_digits (nat (- i)) else nat_digits (nat i))"

text \<open>\<^verbatim>\<open>type LifetimeScope int\<close> with its three named constants.\<close>

type_synonym LifetimeScope = int

definition ScopeAll :: LifetimeScope where "ScopeAll = 0"
definition ScopeNewAndUpdated :: LifetimeScope where "ScopeNewAndUpdated = 1"
definition ScopeNew :: LifetimeScope where "ScopeNew = 2"

text \<open>In the \<^verbatim>\<open>ScopeAll\<close> branch the loop \<^verbatim>\<open>for _, v := range s.values\<close> calls
  \<^verbatim>\<open>v.SetLifetime(d)\<close> on every entry; each step of the range reads the map.\<close>

definition SetLifetime :: "time \<Rightarrow> duration \<Rightarrow> LifetimeScope \<Rightarrow> Store \<Rightarrow> error option \<times> Store" where
  "SetLifetime now d scope s =
     (if scope = ScopeAll then
        let (lck, s1) = gc now s;
            s2 = (case lck of
                    WriteLocked \<Rightarrow> RLock (Unlock s1)
                  | Unlocked \<Rightarrow> RLock s1
                  | ReadLocked \<Rightarrow> s1);
            s3 = s2\<lparr>values := map (\<lambda>(k, v). (k, Data_SetLifetime d v)) (values s2),
                     trace := trace s2 @ replicate (length (values s2)) EvReadMap\<rparr>
        in (None, RUnlock (s3\<lparr>slifetime := d\<rparr>))
      else if scope = ScopeNewAndUpdated then
        (None, RUnlock ((RLock s)\<lparr>slifetime := d\<rparr>))
      else if scope = ScopeNew then
        (Some (NotSupportedError ''ScopeNew''), s)
      else
        (Some (NotSupportedError (Itoa scope)), s))"

definition SetTransient :: "bool \<Rightarrow> Store \<Rightarrow> Store" where
  "SetTransient v s = RUnlock ((RLock s)\<lparr>isTransient := v\<rparr>)"

subsection \<open>The ungated store of memstore.go\<close>

text \<open>\<^verbatim>\<open>MemStore\<close> is the earlier store without the interval guard: its \<^verbatim>\<open>gc\<close> is the
  same loop run on every call. It has no \<^verbatim>\<open>lastgc\<close> field; the two functions below work
  on the same record and leave \<open>lastgc\<close> alone.\<close>

definition MemStore_gc :: "time \<Rightarrow> Store \<Rightarrow> LockStatus \<times> Store" where
  "MemStore_gc now s =
     (let s1 = RLock s;
          (writeLocked, s2) = gc_loop now (map fst (values s1)) False s1
      in if writeLocked then (WriteLocked, s2) else (ReadLocked, s2))"

definition MemStore_Add :: "time \<Rightarrow> string \<Rightarrow> iface \<Rightarrow> Store \<Rightarrow> error option \<times> Store" where
  "MemStore_Add now key v s =
     (let (lckStatus, s1) = MemStore_gc now s;
          data = NewMemData now (slifetime s1) v;
          s2 = (if lckStatus = ReadLocked then Lock (RUnlock s1) else s1);
          s3 = emit EvReadMap s2
      in if map_of (values s3) key \<noteq> None
         then (Some (DuplicatedKeyError key), Unlock s3)
         else (None,
               Unlock (emit EvWriteMap (s3\<lparr>values := AList.update key data (values s3)\<rparr>))))"

subsection \<open>Concrete stores\<close>

text \<open>A store of lifetime 1000 on which \<open>''k''\<close> was added at time 5000 and \<^verbatim>\<open>Count\<close> was
  called at time 5900: the entry expires at 6000 and the last sweep ran at 5900.\<close>

definition stale :: Store where
  "stale = snd (Count 5900 (snd (Add 5000 ''k'' (Some (IntV 7)) (New 1000 False))))"

text \<open>A store with a live entry \<open>''a''\<close> and, at time 50, an expired entry \<open>''b''\<close>.\<close>

definition two_entries :: Store where
  "two_entries =
     \<lparr>values = [(''a'', \<lparr>expireAt = 100, lifetime = 10, val = Some (IntV 1)\<rparr>),
                (''b'', \<lparr>expireAt = 40, lifetime = 10, val = None\<rparr>)],
      slifetime = 10, isTransient = False, lastgc = 0, trace = []\<rparr>"

text \<open>A store whose only entry holds the nil value.\<close>

definition nil_entry :: Store where
  "nil_entry =
     \<lparr>values = [(''n'', \<lparr>expireAt = 100, lifetime = 10, val = None\<rparr>)],
      slifetime = 10, isTransient = False, lastgc = 0, trace = []\<rparr>"

subsection \<open>Properties of the sweep\<close>

lemma emit_fields [simp]:
  "values (emit ev s) = values s" "slifetime (emit ev s) = slifetime s"
  "isTransient (emit ev s) = isTransient s" "lastgc (emit ev s) = lastgc s"
  "trace (emit ev s) = trace s @ [ev]"
  by (simp_all add: emit_def)

lemma gc_loop_lookup:
  "map_of (values (snd (gc_loop now ks wl s))) k =
     (case map_of (values s) k of
        None \<Rightarrow> None
      | Some e \<Rightarrow> if k \<in> set ks \<and> IsExpired now e then None else Some e)"
proof (induction ks arbitrary: wl s)
  case Nil
  show ?case by (simp split: option.split)
next
  case (Cons i ks)
  show ?case
  proof (cases "map_of (values s) i")
    case None
    then show ?thesis using Cons.IH [of wl s]
      by (auto split: option.split)
  next
    case (Some e)
    show ?thesis
    proof (cases "IsExpired now e")
      case True
      then show ?thesis using Some Cons.IH
        by (auto simp: Let_def AList.delete_conv' split: option.split)
    next
      case False
      then show ?thesis using Some Cons.IH
        by (auto simp: Let_def split: option.split)
    qed
  qed
qed

lemma gc_loop_frame:
  "slifetime (snd (gc_loop now ks wl s)) = slifetime s \<and>
   isTransient (snd (gc_loop now ks wl s)) = isTransient s \<and>
   lastgc (snd (gc_loop now ks wl s)) = lastgc s"
  by (induction ks arbitrary: wl s) (auto simp: Let_def split: option.split)

lemma gc_loop_flag:
  "fst (gc_loop now ks wl s) \<longleftrightarrow>
     wl \<or> (\<exists>k e. k \<in> set ks \<and> map_of (values s) k = Some e \<and> IsExpired now e)"
proof (induction ks arbitrary: wl s)
  case Nil
  show ?case by simp
next
  case (Cons i ks)
  show ?case
  proof (cases "map_of (values s) i")
    case None
    then show ?thesis using Cons.IH [of wl s] by auto
  next
    case (Some e)
    show ?thesis
    proof (cases "IsExpired now e")
      case True
      then show ?thesis using Some Cons.IH by (auto simp: Let_def)
    next
      case False
      then show ?thesis using Some Cons.IH by (auto simp: Let_def)
    qed
  qed
qed

lemma replay_append:
  "replay l (xs @ ys) = (case replay l xs of None \<Rightarrow> None | Some l' \<Rightarrow> replay l' ys)"
  by (induction xs arbitrary: l) (auto split: option.split)

lemma gc_loop_replay:
  "replay l0 (trace s) = Some (if wl then WriteLocked else ReadLocked) \<Longrightarrow>
   replay l0 (trace (snd (gc_loop now ks wl s))) =
     Some (if fst (gc_loop now ks wl s) then WriteLocked else ReadLocked)"
proof (induction ks arbitrary: wl s)
  case Nil
  then show ?case by simp
next
  case (Cons i ks)
  show ?case
  proof (cases "map_of (values s) i")
    case None
    then show ?thesis using Cons.IH [of s wl] Cons.prems by simp
  next
    case (Some e)
    show ?thesis
    proof (cases "IsExpired now e")
      case True
      let ?s3 = "emit EvWriteMap
        ((if \<not> wl then Lock (RUnlock (emit EvReadMap s)) else emit EvReadMap s)
          \<lparr>values := AList.delete i
             (values (if \<not> wl then Lock (RUnlock (emit EvReadMap s)) else emit EvReadMap s))\<rparr>)"
      have "replay l0 (trace ?s3) = Some WriteLocked"
        using Cons.prems by (cases wl) (simp_all add: replay_append emit_def)
      then have "replay l0 (trace (snd (gc_loop now ks True ?s3))) =
          Some (if fst (gc_loop now ks True ?s3) then WriteLocked else ReadLocked)"
        using Cons.IH [of ?s3 True] by simp
      then show ?thesis using Some True by (simp add: Let_def)
    next
      case False
      have "replay l0 (trace (emit EvReadMap s)) = Some (if wl then WriteLocked else ReadLocked)"
        using Cons.prems by (cases wl) (simp_all add: replay_append)
      then show ?thesis using Some False Cons.IH [of "emit EvReadMap s" wl]
        by (simp add: Let_def)
    qed
  qed
qed

lemma gc_skip: "lastgc s + slifetime s sdiv 5 > now \<Longrightarrow> gc now s = (Unlocked, s)"
  by (simp add: gc_def)

lemma key_in_keys: "map_of al k = Some e \<Longrightarrow> k \<in> fst ` set al"
  by (metis domI dom_map_of_conv_image_fst)

lemma gc_run_lookup:
  "\<not> lastgc s + slifetime s sdiv 5 > now \<Longrightarrow>
   map_of (values (snd (gc now s))) k =
     (case map_of (values s) k of
        None \<Rightarrow> None
      | Some e \<Rightarrow> if IsExpired now e then None else Some e)"
  by (auto simp: gc_def Let_def split_beta gc_loop_lookup key_in_keys split: option.split)

lemma gc_lookup:
  "map_of (values (snd (gc now s))) k =
     (case map_of (values s) k of
        None \<Rightarrow> None
      | Some e \<Rightarrow> if lastgc s + slifetime s sdiv 5 \<le> now \<and> IsExpired now e then None else Some e)"
  by (cases "lastgc s + slifetime s sdiv 5 > now")
     (auto simp: gc_skip gc_run_lookup split: option.split)

lemma gc_frame:
  "slifetime (snd (gc now s)) = slifetime s \<and> isTransient (snd (gc now s)) = isTransient s"
  by (simp add: gc_def Let_def split_beta gc_loop_frame)

lemma gc_status:
  "fst (gc now s) =
     (if lastgc s + slifetime s sdiv 5 > now then Unlocked
      else if \<exists>k e. map_of (values s) k = Some e \<and> IsExpired now e then WriteLocked
      else ReadLocked)"
proof -
  have "(\<exists>k e. k \<in> set (map fst (values s)) \<and> map_of (values s) k = Some e \<and> IsExpired now e)
      \<longleftrightarrow> (\<exists>k e. map_of (values s) k = Some e \<and> IsExpired now e)"
    using key_in_keys [of "values s"] by fastforce
  then show ?thesis
    by (simp add: gc_def Let_def split_beta gc_loop_flag) blast
qed

lemma gc_lastgc:
  "lastgc (snd (gc now s)) = (if lastgc s + slifetime s sdiv 5 > now then lastgc s else now)"
  by (simp add: gc_def Let_def split_beta gc_loop_frame)

lemma gc_replay:
  "replay l0 (trace s) = Some Unlocked \<Longrightarrow>
   replay l0 (trace (snd (gc now s))) = Some (fst (gc now s))"
  using gc_loop_replay [of l0 "RLock (s\<lparr>lastgc := now\<rparr>)" False now "map fst (values s)"]
  by (simp add: gc_def Let_def split_beta replay_append)

lemma MemStore_gc_lookup:
  "map_of (values (snd (MemStore_gc now s))) k =
     (case map_of (values s) k of
        None \<Rightarrow> None
      | Some e \<Rightarrow> if IsExpired now e then None else Some e)"
  by (auto simp: MemStore_gc_def Let_def split_beta gc_loop_lookup key_in_keys split: option.split)

lemma MemStore_gc_status:
  "fst (MemStore_gc now s) =
     (if \<exists>k e. map_of (values s) k = Some e \<and> IsExpired now e then WriteLocked
      else ReadLocked)"
proof -
  have "(\<exists>k e. k \<in> set (map fst (values s)) \<and> map_of (values s) k = Some e \<and> IsExpired now e)
      \<longleftrightarrow> (\<exists>k e. map_of (values s) k = Some e \<and> IsExpired now e)"
    using key_in_keys [of "values s"] by fastforce
  then show ?thesis
    by (simp add: MemStore_gc_def Let_def split_beta gc_loop_flag)
qed

lemma map_of_map_entries:
  "map_of (map (\<lambda>(k, v). (k, f v)) al) k = map_option f (map_of al k)"
  by (induction al) auto

lemma sdiv_five_exact:
  "5 dvd (l::int) \<Longrightarrow> (d < l sdiv 5 \<longleftrightarrow> 5 * d < l)"
  by (auto simp: signed_divide_int_def sgn_if elim!: dvdE)

text \<open>Unfolding every operation, for evaluation on concrete stores.\<close>

lemmas eval_defs =
  New_def Add_def Count_def Get_def Set_def Delete_def GC_def Flush_def SetLifetime_def
  SetTransient_def gc_def MemStore_gc_def MemStore_Add_def unsafeGet_def emit_def
  NewMemData_def IsExpired_def Hit_def Value_def Data_SetLifetime_def SetValue_def
  assignable_def Let_def signed_divide_int_def ScopeAll_def ScopeNewAndUpdated_def ScopeNew_def

lemma stale_eq:
  "stale = \<lparr>values = [(''k'', \<lparr>expireAt = 6000, lifetime = 1000, val = Some (IntV 7)\<rparr>)],
     slifetime = 1000, isTransient = False, lastgc = 5900,
     trace = [EvRLock, EvRUnlock, EvLock, EvReadMap, EvWriteMap, EvUnlock,
              EvRLock, EvReadMap, EvRUnlock, EvReadMap]\<rparr>"
  by (simp add: stale_def eval_defs)

subsection \<open>One entry per key\<close>

text \<open>A Go map holds one entry per key. The operations keep the keys of the association
  list distinct, and on such a list \<^verbatim>\<open>len(s.values)\<close> is the number of keys.\<close>

lemma gc_loop_distinct:
  "distinct (map fst (values s)) \<Longrightarrow> distinct (map fst (values (snd (gc_loop now ks wl s))))"
proof (induction ks arbitrary: wl s)
  case Nil
  then show ?case by simp
next
  case (Cons i ks)
  then show ?case
    by (auto simp: Let_def AList.distinct_delete split: option.split)
qed

lemma gc_distinct:
  "distinct (map fst (values s)) \<Longrightarrow> distinct (map fst (values (snd (gc now s))))"
  by (simp add: gc_def Let_def split_beta gc_loop_distinct)

lemma map_entries_keys: "fst \<circ> (\<lambda>(k, v). (k, f v)) = fst"
  by (auto simp: fun_eq_iff)

lemma Add_distinct:
  "distinct (map fst (values s)) \<Longrightarrow> distinct (map fst (values (snd (Add now k v s))))"
  using gc_distinct [of s now]
  by (cases "fst (gc now s)") (simp_all add: Add_def split_beta Let_def AList.distinct_update)

lemma Delete_distinct:
  "distinct (map fst (values s)) \<Longrightarrow> distinct (map fst (values (snd (Delete now k s))))"
  using gc_distinct [of s now]
  by (cases "fst (gc now s)")
     (simp_all add: Delete_def split_beta Let_def AList.distinct_delete split: sum.split)

lemma Get_distinct:
  "distinct (map fst (values s)) \<Longrightarrow>
   distinct (map fst (values (fst (snd (Get now k dst s)))))"
  using gc_distinct [of s now]
  by (cases "fst (gc now s)")
     (simp_all add: Get_def split_beta Let_def AList.distinct_update split: sum.split)

lemma Set_distinct:
  "distinct (map fst (values s)) \<Longrightarrow> distinct (map fst (values (snd (Set now k v s))))"
  using gc_distinct [of s now]
  by (cases "fst (gc now s)")
     (simp_all add: Set_def split_beta Let_def AList.distinct_update split: sum.split)

lemma SetLifetime_distinct:
  "distinct (map fst (values s)) \<Longrightarrow>
   distinct (map fst (values (snd (SetLifetime now d scope s))))"
  using gc_distinct [of s now]
  by (cases "fst (gc now s)")
     (simp_all add: SetLifetime_def split_beta Let_def map_entries_keys)

lemma Count_GC_distinct:
  "distinct (map fst (values s)) \<Longrightarrow>
   distinct (map fst (values (snd (Count now s)))) \<and> distinct (map fst (values (GC now s)))"
  using gc_distinct [of s now]
  by (cases "fst (gc now s)") (simp_all add: Count_def GC_def split_beta Let_def)

lemma Count_is_number_of_keys:
  assumes "distinct (map fst (values s))"
  shows "fst (fst (Count now s)) = card (dom (map_of (values (snd (Count now s)))))"
proof -
  have d: "distinct (map fst (values (snd (gc now s))))"
    using assms by (rule gc_distinct)
  have "length (values (snd (gc now s))) = card (dom (map_of (values (snd (gc now s)))))"
    using d by (metis distinct_card dom_map_of_conv_image_fst length_map set_map)
  then show ?thesis
    by (cases "fst (gc now s)") (simp_all add: Count_def split_beta Let_def)
qed

subsection \<open>The lock discipline of each operation\<close>

text \<open>Started with no lock held, \<^verbatim>\<open>Add\<close>, \<^verbatim>\<open>Get\<close>, \<^verbatim>\<open>Set\<close>, \<^verbatim>\<open>GC\<close>, \<^verbatim>\<open>Flush\<close>,
  \<^verbatim>\<open>SetLifetime\<close> and \<^verbatim>\<open>SetTransient\<close> access the map under the lock they need and end
  with no lock held. \<^verbatim>\<open>Count\<close> never does, and \<^verbatim>\<open>Delete\<close> does exactly when the sweep
  was not skipped.\<close>

lemma replay_reads:
  "replay ReadLocked (replicate n EvReadMap) = Some ReadLocked"
  by (induction n) auto

lemma Add_disciplined:
  "replay Unlocked (trace s) = Some Unlocked \<Longrightarrow>
   replay Unlocked (trace (snd (Add now key v s))) = Some Unlocked"
  using gc_replay [of Unlocked s now]
  by (cases "fst (gc now s)") (simp_all add: Add_def split_beta Let_def replay_append)

lemma Get_disciplined:
  "replay Unlocked (trace s) = Some Unlocked \<Longrightarrow>
   replay Unlocked (trace (fst (snd (Get now key dst s)))) = Some Unlocked"
  using gc_replay [of Unlocked s now]
  by (cases "fst (gc now s)")
     (simp_all add: Get_def split_beta Let_def replay_append split: sum.split)

lemma Set_disciplined:
  "replay Unlocked (trace s) = Some Unlocked \<Longrightarrow>
   replay Unlocked (trace (snd (Set now key v s))) = Some Unlocked"
  using gc_replay [of Unlocked s now]
  by (cases "fst (gc now s)")
     (simp_all add: Set_def split_beta Let_def replay_append split: sum.split)

lemma GC_disciplined:
  "replay Unlocked (trace s) = Some Unlocked \<Longrightarrow>
   replay Unlocked (trace (GC now s)) = Some Unlocked"
  using gc_replay [of Unlocked s now]
  by (cases "fst (gc now s)") (simp_all add: GC_def split_beta Let_def replay_append)

lemma SetLifetime_disciplined:
  "replay Unlocked (trace s) = Some Unlocked \<Longrightarrow>
   replay Unlocked (trace (snd (SetLifetime now d scope s))) = Some Unlocked"
  using gc_replay [of Unlocked s now]
  by (cases "fst (gc now s)")
     (simp_all add: SetLifetime_def split_beta Let_def replay_append replay_reads)

lemma Flush_SetTransient_disciplined:
  "replay Unlocked (trace s) = Some Unlocked \<Longrightarrow>
   replay Unlocked (trace (snd (Flush s))) = Some Unlocked \<and>
   replay Unlocked (trace (SetTransient v s)) = Some Unlocked"
  by (simp add: Flush_def SetTransient_def replay_append)

lemma Count_undisciplined:
  "replay Unlocked (trace s) = Some Unlocked \<Longrightarrow>
   replay Unlocked (trace (snd (Count now s))) = None"
  using gc_replay [of Unlocked s now]
  by (cases "fst (gc now s)") (simp_all add: Count_def split_beta Let_def replay_append)

lemma Delete_discipline:
  "replay Unlocked (trace s) = Some Unlocked \<Longrightarrow>
   replay Unlocked (trace (snd (Delete now key s))) =
     (if fst (gc now s) = Unlocked then None else Some Unlocked)"
  using gc_replay [of Unlocked s now]
  by (cases "fst (gc now s)")
     (simp_all add: Delete_def split_beta Let_def replay_append split: sum.split)

section \<open>The claims\<close>

subsection \<open>C1: expired entries and the skipped sweep\<close>

text \<open>
  Claim C1 says that \<^verbatim>\<open>Get\<close>, \<^verbatim>\<open>Set\<close> and \<^verbatim>\<open>Delete\<close> fail with \<^verbatim>\<open>InvalidKeyError\<close> on
  every expired entry, also when the sweep was skipped by the interval guard. The store
  has no expiry check outside the sweep (\<open>unsafeGet\<close> only looks the key up), so this
  holds when the sweep runs in the call, that is when \<open>lastgc + lifetime / 5 \<le> now\<close>:
  then the three operations fail with \<^verbatim>\<open>InvalidKeyError\<close>, the destination of \<^verbatim>\<open>Get\<close> is
  left as it was, and the entry is removed, not renewed.
\<close>

theorem expired_entry_invalid_when_swept:
  assumes "map_of (values s) k = Some e" and "IsExpired now e"
    and "lastgc s + slifetime s sdiv 5 \<le> now"
  shows "fst (Get now k dst s) = Some (InvalidKeyError k) \<and>
         snd (snd (Get now k dst s)) = dst \<and>
         map_of (values (fst (snd (Get now k dst s)))) k = None \<and>
         fst (Set now k v s) = Some (InvalidKeyError k) \<and>
         map_of (values (snd (Set now k v s))) k = None \<and>
         fst (Delete now k s) = Some (InvalidKeyError k) \<and>
         map_of (values (snd (Delete now k s))) k = None"
proof -
  have gone: "map_of (values (snd (gc now s))) k = None"
    using assms by (simp add: gc_lookup)
  have g: "fst (Get now k dst s) = Some (InvalidKeyError k) \<and>
         snd (snd (Get now k dst s)) = dst \<and>
         map_of (values (fst (snd (Get now k dst s)))) k = None"
    using gone by (cases "fst (gc now s)") (simp_all add: Get_def split_beta Let_def unsafeGet_def)
  have st: "fst (Set now k v s) = Some (InvalidKeyError k) \<and>
         map_of (values (snd (Set now k v s))) k = None"
    using gone by (cases "fst (gc now s)") (simp_all add: Set_def split_beta Let_def unsafeGet_def)
  have d: "fst (Delete now k s) = Some (InvalidKeyError k) \<and>
         map_of (values (snd (Delete now k s))) k = None"
    using gone by (cases "fst (gc now s)") (simp_all add: Delete_def split_beta Let_def unsafeGet_def)
  show ?thesis using g st d by simp
qed

theorem expired_entry_invalid_when_swept_witness:
  "map_of (values two_entries) ''b'' = Some \<lparr>expireAt = 40, lifetime = 10, val = None\<rparr> \<and>
   IsExpired 50 \<lparr>expireAt = 40, lifetime = 10, val = None\<rparr> \<and>
   lastgc two_entries + slifetime two_entries sdiv 5 \<le> 50 \<and>
   fst (Get 50 ''b'' (Ptr TInt (Some (IntV 0))) two_entries) = Some (InvalidKeyError ''b'') \<and>
   snd (snd (Get 50 ''b'' (Ptr TInt (Some (IntV 0))) two_entries)) = Ptr TInt (Some (IntV 0)) \<and>
   fst (Set 50 ''b'' (Some (IntV 9)) two_entries) = Some (InvalidKeyError ''b'') \<and>
   fst (Delete 50 ''b'' two_entries) = Some (InvalidKeyError ''b'')"
proof -
  have h1: "map_of (values two_entries) ''b'' = Some \<lparr>expireAt = 40, lifetime = 10, val = None\<rparr>"
    by (simp add: two_entries_def)
  have h2: "IsExpired 50 \<lparr>expireAt = 40, lifetime = 10, val = None\<rparr>"
    by (simp add: IsExpired_def)
  have h3: "lastgc two_entries + slifetime two_entries sdiv 5 \<le> 50"
    by (simp add: two_entries_def signed_divide_int_def)
  show ?thesis
    using h1 h2 h3
      expired_entry_invalid_when_swept [OF h1 h2 h3, of "Ptr TInt (Some (IntV 0))" "Some (IntV 9)"]
    by simp
qed

text \<open>
  When the sweep is skipped the claim fails. On \<open>stale\<close> at time 6050 the entry \<open>''k''\<close>
  is expired (it expired at 6000) and the sweep is skipped (the last one ran at 5900 and
  the interval is 200). \<^verbatim>\<open>Get\<close> succeeds, copies the value into the destination and
  renews the entry until 7050; \<^verbatim>\<open>Set\<close> and \<^verbatim>\<open>Delete\<close> succeed as well.
\<close>

theorem expired_entry_served_when_sweep_skipped:
  "map_of (values stale) ''k'' = Some \<lparr>expireAt = 6000, lifetime = 1000, val = Some (IntV 7)\<rparr> \<and>
   IsExpired 6050 \<lparr>expireAt = 6000, lifetime = 1000, val = Some (IntV 7)\<rparr> \<and>
   fst (gc 6050 stale) = Unlocked \<and>
   fst (Get 6050 ''k'' (Ptr TInt (Some (IntV 0))) stale) = None \<and>
   snd (snd (Get 6050 ''k'' (Ptr TInt (Some (IntV 0))) stale)) = Ptr TInt (Some (IntV 7)) \<and>
   map_of (values (fst (snd (Get 6050 ''k'' (Ptr TInt (Some (IntV 0))) stale)))) ''k'' =
     Some \<lparr>expireAt = 7050, lifetime = 1000, val = Some (IntV 7)\<rparr> \<and>
   fst (Set 6050 ''k'' (Some (IntV 8)) stale) = None \<and>
   fst (Delete 6050 ''k'' stale) = None"
  by (simp add: stale_eq eval_defs)

subsection \<open>C2: SetLifetime with ScopeAll\<close>

text \<open>
  Claim C2 says that \<^verbatim>\<open>SetLifetime(d, ScopeAll)\<close> succeeds, reassigns the lifetime of every
  entry present at the call, recomputes its \<^verbatim>\<open>expireAt\<close>, and leaves the set of keys
  unchanged. What holds: the call succeeds and sets the default lifetime to \<open>d\<close>; it
  starts with the sweep, so an expired entry is removed when the sweep is not skipped;
  every entry that remains has its lifetime set to \<open>d\<close> and keeps its value; no key is
  added.
\<close>

theorem SetLifetime_ScopeAll_reassigns_lifetime:
  "fst (SetLifetime now d ScopeAll s) = None \<and>
   slifetime (snd (SetLifetime now d ScopeAll s)) = d \<and>
   map_option (\<lambda>e. (lifetime e, val e))
       (map_of (values (snd (SetLifetime now d ScopeAll s))) k) =
     (case map_of (values s) k of
        None \<Rightarrow> None
      | Some e \<Rightarrow>
          if lastgc s + slifetime s sdiv 5 \<le> now \<and> IsExpired now e then None
          else Some (d, val e))"
  by (cases "fst (gc now s)")
     (simp_all add: SetLifetime_def ScopeAll_def split_beta Let_def map_of_map_entries gc_lookup
        Data_SetLifetime_def split: option.split)

theorem SetLifetime_ScopeAll_reassigns_lifetime_witness:
  "fst (SetLifetime 50 1000 ScopeAll two_entries) = None \<and>
   slifetime (snd (SetLifetime 50 1000 ScopeAll two_entries)) = 1000 \<and>
   map_option (\<lambda>e. (lifetime e, val e))
       (map_of (values (snd (SetLifetime 50 1000 ScopeAll two_entries))) ''a'') =
     Some (1000, Some (IntV 1)) \<and>
   map_option (\<lambda>e. (lifetime e, val e))
       (map_of (values (snd (SetLifetime 50 1000 ScopeAll two_entries))) ''b'') = None"
  using SetLifetime_ScopeAll_reassigns_lifetime [of 50 1000 two_entries "''a''"]
    SetLifetime_ScopeAll_reassigns_lifetime [of 50 1000 two_entries "''b''"]
  by (simp add: two_entries_def IsExpired_def signed_divide_int_def)

text \<open>
  The claim fails on \<open>two_entries\<close> at time 50 with \<open>d = 1000\<close>: the live entry \<open>''a''\<close>
  still expires at 100 and not at \<open>50 + 1000\<close>, and the expired entry \<open>''b''\<close>, present
  at the call, is gone afterwards.
\<close>

theorem SetLifetime_ScopeAll_counterexample:
  "map_of (values (snd (SetLifetime 50 1000 ScopeAll two_entries))) ''a'' =
     Some \<lparr>expireAt = 100, lifetime = 1000, val = Some (IntV 1)\<rparr> \<and>
   (100::int) \<noteq> 50 + 1000 \<and>
   map_of (values two_entries) ''b'' = Some \<lparr>expireAt = 40, lifetime = 10, val = None\<rparr> \<and>
   map_of (values (snd (SetLifetime 50 1000 ScopeAll two_entries))) ''b'' = None \<and>
   fst ` set (values (snd (SetLifetime 50 1000 ScopeAll two_entries))) \<noteq>
     fst ` set (values two_entries)"
  by (simp add: two_entries_def eval_defs)

subsection \<open>C3: the lock held at every access to the map\<close>

text \<open>
  Claim C3 says that every operation reads the map only under at least a read lock, and
  in particular that \<^verbatim>\<open>Count\<close> holds one when it reads the number of entries. \<^verbatim>\<open>Count\<close>
  releases the lock the sweep returned and reads \<^verbatim>\<open>len(s.values)\<close> afterwards: on a new
  store at time 5000 its trace is read lock, read unlock, map read, which \<open>replay\<close>
  rejects. When the sweep is skipped (time 5100, the last sweep at 5000) \<^verbatim>\<open>Count\<close> and
  \<^verbatim>\<open>Delete\<close> read the map without having taken any lock.
\<close>

theorem Count_reads_map_unlocked:
  "trace (snd (Count 5000 (New 1000 False))) = [EvRLock, EvRUnlock, EvReadMap] \<and>
   replay Unlocked (trace (snd (Count 5000 (New 1000 False)))) = None \<and>
   fst (gc 5100 (snd (Count 5000 (New 1000 False)))) = Unlocked \<and>
   trace (snd (Count 5100 ((snd (Count 5000 (New 1000 False)))\<lparr>trace := []\<rparr>))) = [EvReadMap] \<and>
   trace (snd (Delete 5100 ''k'' ((snd (Count 5000 (New 1000 False)))\<lparr>trace := []\<rparr>))) =
     [EvReadMap] \<and>
   replay Unlocked [EvReadMap] = None"
  by (simp add: eval_defs)

subsection \<open>C4: Add then Get\<close>

text \<open>
  Claim C4: for a key \<open>k\<close> not in the store and a value \<open>v\<close>, \<^verbatim>\<open>Add(k, v)\<close> at time \<open>t1\<close>
  followed by \<^verbatim>\<open>Get(k, dst)\<close> at a time \<open>t2\<close> within the lifetime window
  (\<open>t2 \<le> t1 + lifetime\<close>), with \<open>dst\<close> a non-nil pointer to a variable of the type of \<open>v\<close>,
  succeeds both times and leaves \<open>v\<close> in the variable. The value has a type, so it is
  not the nil interface; the variable may hold anything before the call.
\<close>

theorem Add_then_Get:
  assumes "map_of (values s) k = None" and "t2 \<le> t1 + slifetime s"
  shows "fst (Add t1 k (Some v) s) = None \<and>
         fst (Get t2 k (Ptr (type_of v) c) (snd (Add t1 k (Some v) s))) = None \<and>
         snd (snd (Get t2 k (Ptr (type_of v) c) (snd (Add t1 k (Some v) s)))) =
           Ptr (type_of v) (Some v)"
proof -
  let ?s1 = "snd (Add t1 k (Some v) s)"
  have absent: "map_of (values (snd (gc t1 s))) k = None"
    using assms(1) by (simp add: gc_lookup)
  have ok: "fst (Add t1 k (Some v) s) = None"
    using absent by (cases "fst (gc t1 s)") (simp_all add: Add_def split_beta Let_def)
  have stored: "map_of (values ?s1) k =
      Some \<lparr>expireAt = t1 + slifetime s, lifetime = slifetime s, val = Some v\<rparr>"
    using absent gc_frame [of t1 s]
    by (cases "fst (gc t1 s)")
       (simp_all add: Add_def split_beta Let_def AList.update_conv' NewMemData_def)
  have live: "map_of (values (snd (gc t2 ?s1))) k =
      Some \<lparr>expireAt = t1 + slifetime s, lifetime = slifetime s, val = Some v\<rparr>"
    using stored assms(2) by (simp add: gc_lookup IsExpired_def)
  have "fst (Get t2 k (Ptr (type_of v) c) ?s1) = None \<and>
      snd (snd (Get t2 k (Ptr (type_of v) c) ?s1)) = Ptr (type_of v) (Some v)"
    using live
    by (cases "fst (gc t2 ?s1)")
       (simp_all add: Get_def split_beta Let_def unsafeGet_def Value_def Hit_def
          Data_SetLifetime_def assignable_def)
  then show ?thesis using ok by simp
qed

theorem Add_then_Get_witness:
  "map_of (values two_entries) ''c'' = None \<and> (55::int) \<le> 50 + slifetime two_entries \<and>
   fst (Add 50 ''c'' (Some (StringV ''x'')) two_entries) = None \<and>
   fst (Get 55 ''c'' (Ptr TString (Some (StringV '''')))
         (snd (Add 50 ''c'' (Some (StringV ''x'')) two_entries))) = None \<and>
   snd (snd (Get 55 ''c'' (Ptr TString (Some (StringV '''')))
         (snd (Add 50 ''c'' (Some (StringV ''x'')) two_entries)))) =
     Ptr TString (Some (StringV ''x''))"
proof -
  have h1: "map_of (values two_entries) ''c'' = None"
    by (simp add: two_entries_def)
  have h2: "(55::int) \<le> 50 + slifetime two_entries"
    by (simp add: two_entries_def)
  show ?thesis
    using h1 h2 Add_then_Get [OF h1 h2, of "StringV ''x''" "Some (StringV '''')"]
    by simp
qed

subsection \<open>C5: Add on a key that is present\<close>

text \<open>
  Claim C5: when \<open>k\<close> has a live entry, \<^verbatim>\<open>Add(k, v2)\<close> fails with \<^verbatim>\<open>DuplicatedKeyError\<close>
  and the entry of \<open>k\<close> is the one it was: same value, same \<^verbatim>\<open>expireAt\<close>. This holds for
  \<^verbatim>\<open>Store.Add\<close> and for \<^verbatim>\<open>MemStore.Add\<close>.
\<close>

theorem Add_duplicate_key:
  assumes "map_of (values s) k = Some e" and "\<not> IsExpired now e"
  shows "fst (Add now k v2 s) = Some (DuplicatedKeyError k) \<and>
         map_of (values (snd (Add now k v2 s))) k = Some e \<and>
         fst (MemStore_Add now k v2 s) = Some (DuplicatedKeyError k) \<and>
         map_of (values (snd (MemStore_Add now k v2 s))) k = Some e"
proof -
  have gated: "fst (Add now k v2 s) = Some (DuplicatedKeyError k) \<and>
      map_of (values (snd (Add now k v2 s))) k = Some e"
    using assms gc_lookup [of now s k]
    by (cases "fst (gc now s)") (simp_all add: Add_def split_beta Let_def)
  have ungated: "fst (MemStore_Add now k v2 s) = Some (DuplicatedKeyError k) \<and>
      map_of (values (snd (MemStore_Add now k v2 s))) k = Some e"
    using assms MemStore_gc_lookup [of now s k]
    by (simp add: MemStore_Add_def split_beta Let_def)
  show ?thesis using gated ungated by simp
qed

theorem Add_duplicate_key_witness:
  "map_of (values two_entries) ''a'' =
     Some \<lparr>expireAt = 100, lifetime = 10, val = Some (IntV 1)\<rparr> \<and>
   \<not> IsExpired 50 \<lparr>expireAt = 100, lifetime = 10, val = Some (IntV 1)\<rparr> \<and>
   fst (Add 50 ''a'' (Some (IntV 2)) two_entries) = Some (DuplicatedKeyError ''a'') \<and>
   map_of (values (snd (Add 50 ''a'' (Some (IntV 2)) two_entries))) ''a'' =
     Some \<lparr>expireAt = 100, lifetime = 10, val = Some (IntV 1)\<rparr>"
proof -
  have h1: "map_of (values two_entries) ''a'' =
      Some \<lparr>expireAt = 100, lifetime = 10, val = Some (IntV 1)\<rparr>"
    by (simp add: two_entries_def)
  have h2: "\<not> IsExpired 50 \<lparr>expireAt = 100, lifetime = 10, val = Some (IntV 1)\<rparr>"
    by (simp add: IsExpired_def)
  show ?thesis using h1 h2 Add_duplicate_key [OF h1 h2, of "Some (IntV 2)"] by simp
qed

subsection \<open>C6: renewal and the transient flag\<close>

text \<open>
  Claim C6: a successful \<^verbatim>\<open>Get\<close> or \<^verbatim>\<open>Set\<close> on a transient store leaves \<^verbatim>\<open>expireAt\<close> and
  \<^verbatim>\<open>lifetime\<close> of the entry it found unchanged (\<^verbatim>\<open>Set\<close> changes only the value); on a
  store that is not transient it sets the entry's lifetime to the store's lifetime and
  its \<^verbatim>\<open>expireAt\<close> to \<open>now\<close> plus that lifetime.
\<close>

theorem renewal_follows_transient_flag:
  "(fst (Get now k dst s) = None \<longrightarrow>
      (\<exists>e. map_of (values s) k = Some e \<and>
           map_of (values (fst (snd (Get now k dst s)))) k =
             Some (if isTransient s then e
                   else e\<lparr>lifetime := slifetime s, expireAt := now + slifetime s\<rparr>))) \<and>
   (fst (Set now k v s) = None \<longrightarrow>
      (\<exists>e. map_of (values s) k = Some e \<and>
           map_of (values (snd (Set now k v s))) k =
             Some (if isTransient s then e\<lparr>val := v\<rparr>
                   else e\<lparr>val := v, lifetime := slifetime s, expireAt := now + slifetime s\<rparr>)))"
proof -
  have found: "map_of (values (snd (gc now s))) k = Some e \<Longrightarrow> map_of (values s) k = Some e" for e
    by (simp add: gc_lookup split: option.splits if_splits)
  have g: "fst (Get now k dst s) = None \<longrightarrow>
      (\<exists>e. map_of (values s) k = Some e \<and>
           map_of (values (fst (snd (Get now k dst s)))) k =
             Some (if isTransient s then e
                   else e\<lparr>lifetime := slifetime s, expireAt := now + slifetime s\<rparr>))"
    using found gc_frame [of now s]
    by (cases "fst (gc now s)")
       (auto simp: Get_def split_beta Let_def unsafeGet_def Hit_def Data_SetLifetime_def
          AList.update_conv' split: sum.splits option.splits)
  have st: "fst (Set now k v s) = None \<longrightarrow>
      (\<exists>e. map_of (values s) k = Some e \<and>
           map_of (values (snd (Set now k v s))) k =
             Some (if isTransient s then e\<lparr>val := v\<rparr>
                   else e\<lparr>val := v, lifetime := slifetime s, expireAt := now + slifetime s\<rparr>))"
    using found gc_frame [of now s]
    by (cases "fst (gc now s)")
       (auto simp: Set_def split_beta Let_def unsafeGet_def Hit_def Data_SetLifetime_def
          SetValue_def AList.update_conv' split: sum.splits option.splits)
  show ?thesis using g st by blast
qed

theorem renewal_follows_transient_flag_witness:
  "fst (Get 50 ''a'' (Ptr TInt (Some (IntV 0))) two_entries) = None \<and>
   map_of (values (fst (snd (Get 50 ''a'' (Ptr TInt (Some (IntV 0))) two_entries)))) ''a'' =
     Some \<lparr>expireAt = 60, lifetime = 10, val = Some (IntV 1)\<rparr> \<and>
   fst (Set 50 ''a'' (Some (IntV 5)) (two_entries\<lparr>isTransient := True\<rparr>)) = None \<and>
   map_of (values (snd (Set 50 ''a'' (Some (IntV 5)) (two_entries\<lparr>isTransient := True\<rparr>)))) ''a'' =
     Some \<lparr>expireAt = 100, lifetime = 10, val = Some (IntV 5)\<rparr>"
proof -
  have h1: "fst (Get 50 ''a'' (Ptr TInt (Some (IntV 0))) two_entries) = None"
    by (simp add: two_entries_def eval_defs)
  have h2: "fst (Set 50 ''a'' (Some (IntV 5)) (two_entries\<lparr>isTransient := True\<rparr>)) = None"
    by (simp add: two_entries_def eval_defs)
  have e: "map_of (values two_entries) ''a'' =
      Some \<lparr>expireAt = 100, lifetime = 10, val = Some (IntV 1)\<rparr>"
    by (simp add: two_entries_def)
  have c1: "map_of (values (fst (snd (Get 50 ''a'' (Ptr TInt (Some (IntV 0))) two_entries)))) ''a'' =
      Some \<lparr>expireAt = 60, lifetime = 10, val = Some (IntV 1)\<rparr>"
    using h1 e
      renewal_follows_transient_flag [of 50 "''a''" "Ptr TInt (Some (IntV 0))" two_entries None]
    by (simp add: two_entries_def)
  have c2: "map_of (values (snd (Set 50 ''a'' (Some (IntV 5)) (two_entries\<lparr>isTransient := True\<rparr>)))) ''a'' =
      Some \<lparr>expireAt = 100, lifetime = 10, val = Some (IntV 5)\<rparr>"
    using h2 e
      renewal_follows_transient_flag [of 50 "''a''" NilRef "two_entries\<lparr>isTransient := True\<rparr>"
        "Some (IntV 5)"]
    by (simp add: two_entries_def)
  show ?thesis using h1 h2 c1 c2 by simp
qed

subsection \<open>C7: what the sweep removes and what it returns\<close>

text \<open>
  Claim C7: when the sweep is not skipped by the interval guard, an entry is in the map
  afterwards exactly when it was there and its \<^verbatim>\<open>expireAt\<close> has not passed, and the sweep
  returns \<^verbatim>\<open>WriteLocked\<close> when an expired entry was there to delete and \<^verbatim>\<open>ReadLocked\<close>
  otherwise. The same holds for \<^verbatim>\<open>MemStore.gc\<close>, which is never skipped.
\<close>

theorem gc_removes_exactly_expired:
  assumes "\<not> lastgc s + slifetime s sdiv 5 > now"
  shows "map_of (values (snd (gc now s))) k =
           (case map_of (values s) k of
              None \<Rightarrow> None
            | Some e \<Rightarrow> if IsExpired now e then None else Some e) \<and>
         fst (gc now s) =
           (if \<exists>k' e. map_of (values s) k' = Some e \<and> IsExpired now e
            then WriteLocked else ReadLocked) \<and>
         map_of (values (snd (MemStore_gc now s))) k =
           (case map_of (values s) k of
              None \<Rightarrow> None
            | Some e \<Rightarrow> if IsExpired now e then None else Some e) \<and>
         fst (MemStore_gc now s) =
           (if \<exists>k' e. map_of (values s) k' = Some e \<and> IsExpired now e
            then WriteLocked else ReadLocked)"
  using assms by (simp add: gc_run_lookup gc_status MemStore_gc_lookup MemStore_gc_status)

theorem gc_removes_exactly_expired_witness:
  "\<not> lastgc two_entries + slifetime two_entries sdiv 5 > 50 \<and>
   map_of (values (snd (gc 50 two_entries))) ''b'' = None \<and>
   map_of (values (snd (gc 50 two_entries))) ''a'' =
     Some \<lparr>expireAt = 100, lifetime = 10, val = Some (IntV 1)\<rparr> \<and>
   fst (gc 50 two_entries) = WriteLocked"
proof -
  have g: "\<not> lastgc two_entries + slifetime two_entries sdiv 5 > 50"
    by (simp add: two_entries_def signed_divide_int_def)
  have ex: "\<exists>k' e. map_of (values two_entries) k' = Some e \<and> IsExpired 50 e"
    by (rule exI [of _ "''b''"]) (simp add: two_entries_def IsExpired_def)
  show ?thesis
    using g ex gc_removes_exactly_expired [OF g, of "''a''"]
      gc_removes_exactly_expired [OF g, of "''b''"]
    by (simp add: two_entries_def IsExpired_def)
qed

subsection \<open>C8: the interval guard\<close>

text \<open>
  Claim C8: the sweep is skipped, returning \<^verbatim>\<open>Unlocked\<close> and changing nothing, exactly when
  the time elapsed since the last sweep is less than one fifth of the store's lifetime;
  when it runs it records \<open>now\<close> as the time of the last sweep. One fifth of the lifetime
  is the duration \<^verbatim>\<open>s.lifetime / 5\<close>, Go's quotient of the nanosecond count, which is the
  exact fifth when 5 divides the lifetime.
\<close>

theorem gc_interval_guard:
  "(fst (gc now s) = Unlocked \<longleftrightarrow> now - lastgc s < slifetime s sdiv 5) \<and>
   (if now - lastgc s < slifetime s sdiv 5 then snd (gc now s) = s
    else lastgc (snd (gc now s)) = now) \<and>
   (5 dvd slifetime s \<longrightarrow>
      (fst (gc now s) = Unlocked \<longleftrightarrow> 5 * (now - lastgc s) < slifetime s))"
  using sdiv_five_exact [of "slifetime s" "now - lastgc s"]
  by (auto simp: gc_status gc_lastgc gc_skip)

theorem gc_interval_guard_witness:
  "(5::int) dvd slifetime stale \<and>
   fst (gc 6050 stale) = Unlocked \<and> 5 * (6050 - lastgc stale) < slifetime stale \<and>
   snd (gc 6050 stale) = stale \<and>
   fst (gc 6100 stale) \<noteq> Unlocked \<and>
   lastgc (snd (gc 6100 stale)) = 6100"
  using gc_interval_guard [of 6050 stale] gc_interval_guard [of 6100 stale]
  by (simp add: stale_eq signed_divide_int_def)

subsection \<open>C9: SetLifetime with ScopeNew and ScopeNewAndUpdated\<close>

text \<open>
  Claim C9: \<^verbatim>\<open>SetLifetime(d, ScopeNew)\<close> fails with \<^verbatim>\<open>NotSupportedError\<close> and leaves the
  store as it was; \<^verbatim>\<open>SetLifetime(d, ScopeNewAndUpdated)\<close> succeeds and changes only the
  store's lifetime (under a read lock that it takes and releases), no entry.
\<close>

theorem SetLifetime_ScopeNew_unsupported:
  "SetLifetime now d ScopeNew s = (Some (NotSupportedError ''ScopeNew''), s) \<and>
   SetLifetime now d ScopeNewAndUpdated s =
     (None, s\<lparr>slifetime := d, trace := trace s @ [EvRLock, EvRUnlock]\<rparr>)"
  by (simp add: SetLifetime_def ScopeAll_def ScopeNewAndUpdated_def ScopeNew_def emit_def)

theorem SetLifetime_ScopeNew_unsupported_witness:
  "SetLifetime 50 1000 ScopeNew two_entries = (Some (NotSupportedError ''ScopeNew''), two_entries) \<and>
   fst (SetLifetime 50 1000 ScopeNewAndUpdated two_entries) = None \<and>
   values (snd (SetLifetime 50 1000 ScopeNewAndUpdated two_entries)) = values two_entries \<and>
   slifetime (snd (SetLifetime 50 1000 ScopeNewAndUpdated two_entries)) = 1000"
  using SetLifetime_ScopeNew_unsupported [of 50 1000 two_entries]
  by simp

subsection \<open>C10: Get on an entry that stores nil\<close>

text \<open>
  Claim C10: when the live entry of \<open>k\<close> stores the nil value, \<^verbatim>\<open>Get(k, dst)\<close> succeeds
  and returns every destination as it was, whether or not it is a non-nil pointer.
\<close>

theorem Get_nil_value_leaves_destination:
  assumes "map_of (values s) k = Some e" and "val e = None" and "\<not> IsExpired now e"
  shows "fst (Get now k dst s) = None \<and> snd (snd (Get now k dst s)) = dst"
  using assms gc_lookup [of now s k] gc_frame [of now s]
  by (cases "fst (gc now s)")
     (simp_all add: Get_def split_beta Let_def unsafeGet_def Value_def Hit_def Data_SetLifetime_def)

theorem Get_nil_value_leaves_destination_witness:
  "map_of (values nil_entry) ''n'' = Some \<lparr>expireAt = 100, lifetime = 10, val = None\<rparr> \<and>
   val \<lparr>expireAt = 100, lifetime = 10, val = None\<rparr> = None \<and>
   \<not> IsExpired 50 \<lparr>expireAt = 100, lifetime = 10, val = None\<rparr> \<and>
   fst (Get 50 ''n'' (NonPtr (IntV 3)) nil_entry) = None \<and>
   snd (snd (Get 50 ''n'' (NonPtr (IntV 3)) nil_entry)) = NonPtr (IntV 3)"
proof -
  have h1: "map_of (values nil_entry) ''n'' = Some \<lparr>expireAt = 100, lifetime = 10, val = None\<rparr>"
    by (simp add: nil_entry_def)
  have h2: "val \<lparr>expireAt = 100, lifetime = 10, val = None\<rparr> = None"
    by simp
  have h3: "\<not> IsExpired 50 \<lparr>expireAt = 100, lifetime = 10, val = None\<rparr>"
    by (simp add: IsExpired_def)
  show ?thesis
    using h1 h2 h3 Get_nil_value_leaves_destination [OF h1 h2 h3, of "NonPtr (IntV 3)"]
    by simp
qed

end
